theory Spec2Isabelle
  imports Main "HOL-Library.Sublist"
begin

section \<open>The WGSL abstract syntax tree consumed by the Metal function writer\<close>

text \<open>
  The writer (\<^verbatim>\<open>MetalFunctionWriter.cpp\<close>) walks the AST declared in \<^verbatim>\<open>AST.h\<close>.
  The node classes are datatypes; a node with named accessors and no variants is a
  record.  Floating-point literal values stay abstract: the type variables \<open>'d\<close>
  (the \<^verbatim>\<open>double\<close> of an abstract float literal) and \<open>'f\<close> (the \<^verbatim>\<open>float\<close> of a
  32-bit float literal) stand for them.
\<close>

text \<open>Modelled from the spec: \<^verbatim>\<open>AST::StageAttribute::Stage\<close>; the source names its three
  enumerators in the switch of the stage attribute visitor.\<close>

datatype Stage = Vertex | Fragment | Compute

text \<open>Modelled from the spec: the attribute node classes of \<^verbatim>\<open>AST.h\<close> (a builtin attribute
  carries a name, a location attribute an integer slot index, a stage attribute a stage).\<close>

datatype Attribute =
    BuiltinAttribute string
  | LocationAttribute int
  | StageAttribute Stage

text \<open>\<^verbatim>\<open>AST::ParameterizedType::Base\<close>: the twelve enumerators of the switch in the
  parameterized type visitor.\<close>

datatype Base =
    Vec2 | Vec3 | Vec4
  | Mat2x2 | Mat2x3 | Mat2x4
  | Mat3x2 | Mat3x3 | Mat3x4
  | Mat4x2 | Mat4x3 | Mat4x4

text \<open>\<^verbatim>\<open>AST::UnaryOperation\<close>: the one enumerator the unary expression visitor switches on.\<close>

datatype UnaryOperation = Negate

text \<open>Modelled from the spec: the type and expression node classes of \<^verbatim>\<open>AST.h\<close>.  The
  element type and element count of an array type are nullable (\<open>maybeElementType\<close>,
  \<open>maybeElementCount\<close>); the target of a callable expression is a type node.\<close>

datatype ('d, 'f) TypeDecl =
    ArrayType "('d, 'f) TypeDecl option" "('d, 'f) Expression option"
  | NamedType string
  | ParameterizedType Base "('d, 'f) TypeDecl"
and ('d, 'f) Expression =
    AbstractFloatLiteral 'd
  | AbstractIntLiteral int
  | ArrayAccess "('d, 'f) Expression" "('d, 'f) Expression"
  | CallableExpression "('d, 'f) TypeDecl" "('d, 'f) Expression list"
  | Float32Literal 'f
  | IdentifierExpression string
  | Int32Literal int
  | StructureAccess "('d, 'f) Expression" string
  | UnaryExpression UnaryOperation "('d, 'f) Expression"

text \<open>Modelled from the spec: the statement node classes of \<^verbatim>\<open>AST.h\<close>.  The left-hand side
  of an assignment and the expression of a return are nullable.\<close>

datatype ('d, 'f) Statement =
    AssignmentStatement "('d, 'f) Expression option" "('d, 'f) Expression"
  | ReturnStatement "('d, 'f) Expression option"
  | CompoundStatement "('d, 'f) Statement list"

text \<open>Modelled from the spec: \<^verbatim>\<open>AST::Parameter\<close>, \<^verbatim>\<open>AST::StructMember\<close>, \<^verbatim>\<open>AST::StructDecl\<close>,
  \<^verbatim>\<open>AST::VariableDecl\<close>, \<^verbatim>\<open>AST::FunctionDecl\<close> and \<^verbatim>\<open>AST::ShaderModule\<close> with the
  accessors the writer reads.\<close>

record ('d, 'f) Parameter =
  parameter_type :: "('d, 'f) TypeDecl"
  parameter_name :: string
  parameter_attributes :: "Attribute list"

record ('d, 'f) StructMember =
  member_type :: "('d, 'f) TypeDecl"
  member_name :: string
  member_attributes :: "Attribute list"

record ('d, 'f) StructDecl =
  struct_name :: string
  struct_members :: "('d, 'f) StructMember list"

record ('d, 'f) VariableDecl =
  variable_name :: string
  variable_maybeTypeDecl :: "('d, 'f) TypeDecl option"
  variable_maybeInitializer :: "('d, 'f) Expression option"

record ('d, 'f) FunctionDecl =
  function_attributes :: "Attribute list"
  function_maybeReturnType :: "('d, 'f) TypeDecl option"
  function_name :: string
  function_parameters :: "('d, 'f) Parameter list"
  function_body :: "('d, 'f) Statement list"

datatype ('d, 'f) Declaration =
    Struct "('d, 'f) StructDecl"
  | Function "('d, 'f) FunctionDecl"
  | GlobalVariable "('d, 'f) VariableDecl"

type_synonym ('d, 'f) ShaderModule = "('d, 'f) Declaration list"

section \<open>The writer state and the string builder\<close>

text \<open>
  \<^verbatim>\<open>FunctionDefinitionWriter\<close> has two members: the string builder it appends to and the
  indentation counter \<^verbatim>\<open>Indentation<4> m_indent\<close>.  Every visit method takes the writer
  and returns it updated.  \<^verbatim>\<open>ASSERT\<close> and \<^verbatim>\<open>ASSERT_NOT_REACHED\<close> are the fatal paths of
  an assertion-enabled build: a failed one ends the run, which is the \<open>Inl\<close> branch.
\<close>

datatype Fatal =
    AssertFailed string
  | AssertNotReached

record Writer =
  m_stringBuilder :: string
  m_indent :: nat

type_synonym Visit = "Writer \<Rightarrow> Fatal + Writer"

definition appendString :: "string \<Rightarrow> Writer \<Rightarrow> Writer" where
  "appendString s w = w\<lparr>m_stringBuilder := m_stringBuilder w @ s\<rparr>"

text \<open>Modelled from the spec: \<^verbatim>\<open>WTF::Indentation<4>\<close> appended to a string builder gives four
  spaces per nesting level.\<close>

definition indentation :: "nat \<Rightarrow> string" where
  "indentation n = replicate (4 * n) (CHR '' '')"

definition appendIndent :: "Writer \<Rightarrow> Writer" where
  "appendIndent w = appendString (indentation (m_indent w)) w"

text \<open>\<^verbatim>\<open>IndentationScope\<close> increments the counter when it is constructed and decrements it
  when it goes out of scope.\<close>

definition enterScope :: "Writer \<Rightarrow> Writer" where
  "enterScope w = w\<lparr>m_indent := m_indent w + 1\<rparr>"

text \<open>A scope is left only after it was entered, so the counter is positive here and
  the truncated subtraction of \<open>nat\<close> is the decrement of the source.\<close>

definition leaveScope :: "Writer \<Rightarrow> Writer" where
  "leaveScope w = w\<lparr>m_indent := m_indent w - 1\<rparr>"

text \<open>Sequencing of two emission steps: a fatal assertion in the first ends the run.\<close>

definition andThen :: "Fatal + Writer \<Rightarrow> Visit \<Rightarrow> Fatal + Writer" where
  "andThen r k = (case r of Inl e \<Rightarrow> Inl e | Inr w \<Rightarrow> k w)"

text \<open>Modelled from the spec: appending an integer to a \<^verbatim>\<open>WTF::StringBuilder\<close> appends its
  decimal digits, with a leading minus sign for a negative value.\<close>

definition digitChar :: "nat \<Rightarrow> char" where
  "digitChar n = ''0123456789'' ! (n mod 10)"

fun showNat :: "nat \<Rightarrow> string" where
  "showNat n = (if n < 10 then [digitChar n] else showNat (n div 10) @ [digitChar n])"

definition showInt :: "int \<Rightarrow> string" where
  "showInt i = (if i < 0 then CHR ''-'' # showNat (nat (- i)) else showNat (nat i))"

text \<open>The textual form the string builder gives to the two floating-point types is a
  parameter of the writer.\<close>

record ('d, 'f) NumberFormat =
  formatDouble :: "'d \<Rightarrow> string"
  formatFloat :: "'f \<Rightarrow> string"

section \<open>Types and expressions\<close>

text \<open>Modelled from the spec: \<^verbatim>\<open>AST::Visitor::visit(TypeDecl&)\<close>,
  \<^verbatim>\<open>AST::Visitor::visit(Expression&)\<close> and \<^verbatim>\<open>AST::Visitor::visit(Attribute&)\<close>, to which the
  overrides of the same signature forward, dispatch on the node kind to the override for
  that kind.  In the functions below that dispatch is the choice of the equation.\<close>

text \<open>
  The equations of \<open>visitTypeDecl\<close> and \<open>visitExpression\<close> are the overrides for the
  type and expression classes, statement by statement.  The two loops of the callable
  expression visitor are \<open>visitArrayArguments\<close> (brace initialiser) and
  \<open>visitCallArguments\<close> (call syntax, with the loop's \<open>first\<close> flag).
\<close>

text \<open>The test \<^verbatim>\<open>call.target().kind() == AST::Node::Kind::ArrayType\<close>.\<close>

fun isArrayType :: "('d, 'f) TypeDecl \<Rightarrow> bool" where
  "isArrayType (ArrayType t c) = True"
| "isArrayType t = False"

function
  visitTypeDecl :: "('d, 'f) NumberFormat \<Rightarrow> ('d, 'f) TypeDecl \<Rightarrow> Visit" and
  visitExpression :: "('d, 'f) NumberFormat \<Rightarrow> ('d, 'f) Expression \<Rightarrow> Visit" and
  visitArrayArguments :: "('d, 'f) NumberFormat \<Rightarrow> ('d, 'f) Expression list \<Rightarrow> Visit" and
  visitCallArguments :: "('d, 'f) NumberFormat \<Rightarrow> bool \<Rightarrow> ('d, 'f) Expression list \<Rightarrow> Visit"
where
  "visitTypeDecl nf (ArrayType None c) w = Inl (AssertFailed ''type.maybeElementType()'')"
| "visitTypeDecl nf (ArrayType (Some t) None) w = Inl (AssertFailed ''type.maybeElementCount()'')"
| "visitTypeDecl nf (ArrayType (Some t) (Some c)) w =
     andThen (visitTypeDecl nf t (appendString ''array<'' w)) (\<lambda>w.
     andThen (visitExpression nf c (appendString '', '' w)) (\<lambda>w.
     Inr (appendString ''>'' w)))"
| "visitTypeDecl nf (NamedType n) w =
     (if n = ''i32'' then Inr (appendString ''int'' w)
      else if n = ''f32'' then Inr (appendString ''float'' w)
      else if n = ''u32'' then Inr (appendString ''unsigned'' w)
      else Inr (appendString n w))"
| "visitTypeDecl nf (ParameterizedType Vec2 t) w =
     andThen (visitTypeDecl nf t (appendString ''vec<'' w)) (\<lambda>w.
     Inr (appendString '', 2>'' w))"
| "visitTypeDecl nf (ParameterizedType Vec3 t) w =
     andThen (visitTypeDecl nf t (appendString ''vec<'' w)) (\<lambda>w.
     Inr (appendString '', 3>'' w))"
| "visitTypeDecl nf (ParameterizedType Vec4 t) w =
     andThen (visitTypeDecl nf t (appendString ''vec<'' w)) (\<lambda>w.
     Inr (appendString '', 4>'' w))"
| "visitTypeDecl nf (ParameterizedType Mat2x2 t) w = Inl AssertNotReached"
| "visitTypeDecl nf (ParameterizedType Mat2x3 t) w = Inl AssertNotReached"
| "visitTypeDecl nf (ParameterizedType Mat2x4 t) w = Inl AssertNotReached"
| "visitTypeDecl nf (ParameterizedType Mat3x2 t) w = Inl AssertNotReached"
| "visitTypeDecl nf (ParameterizedType Mat3x3 t) w = Inl AssertNotReached"
| "visitTypeDecl nf (ParameterizedType Mat3x4 t) w = Inl AssertNotReached"
| "visitTypeDecl nf (ParameterizedType Mat4x2 t) w = Inl AssertNotReached"
| "visitTypeDecl nf (ParameterizedType Mat4x3 t) w = Inl AssertNotReached"
| "visitTypeDecl nf (ParameterizedType Mat4x4 t) w = Inr w"
| "visitExpression nf (AbstractFloatLiteral v) w = Inr (appendString (formatDouble nf v) w)"
| "visitExpression nf (AbstractIntLiteral v) w = Inr (appendString (showInt v) w)"
| "visitExpression nf (ArrayAccess b i) w =
     andThen (visitExpression nf b w) (\<lambda>w.
     andThen (visitExpression nf i (appendString ''['' w)) (\<lambda>w.
     Inr (appendString '']'' w)))"
| "visitExpression nf (CallableExpression target arguments) w =
     (if isArrayType target then
        andThen (visitArrayArguments nf arguments (enterScope (appendString ''{\<newline>'' w))) (\<lambda>w.
        Inr (appendString ''}'' (appendIndent (leaveScope w))))
      else
        andThen (visitTypeDecl nf target w) (\<lambda>w.
        andThen (visitCallArguments nf True arguments (appendString ''('' w)) (\<lambda>w.
        Inr (appendString '')'' w))))"
| "visitExpression nf (Float32Literal v) w = Inr (appendString (formatFloat nf v) w)"
| "visitExpression nf (IdentifierExpression x) w = Inr (appendString x w)"
| "visitExpression nf (Int32Literal v) w = Inr (appendString (showInt v) w)"
| "visitExpression nf (StructureAccess b field) w =
     andThen (visitExpression nf b w) (\<lambda>w.
     Inr (appendString field (appendString ''.'' w)))"
| "visitExpression nf (UnaryExpression Negate e) w =
     visitExpression nf e (appendString ''-'' w)"
| "visitArrayArguments nf [] w = Inr w"
| "visitArrayArguments nf (a # as) w =
     andThen (visitExpression nf a (appendIndent w)) (\<lambda>w.
     visitArrayArguments nf as (appendString '',\<newline>'' w))"
| "visitCallArguments nf first [] w = Inr w"
| "visitCallArguments nf first (a # as) w =
     andThen (visitExpression nf a (if first then w else appendString '', '' w)) (\<lambda>w.
     visitCallArguments nf False as w)"
  by pat_completeness auto
termination
  by (relation "measure (\<lambda>x. case x of
        Inl (Inl (nf, t, w)) \<Rightarrow> size t
      | Inl (Inr (nf, e, w)) \<Rightarrow> size e
      | Inr (Inl (nf, as, w)) \<Rightarrow> size_list size as
      | Inr (Inr (nf, first, as, w)) \<Rightarrow> size_list size as)") auto

section \<open>Attributes\<close>

text \<open>The three attribute overrides, and \<open>visitAttribute\<close> for \<^verbatim>\<open>visit(AST::Attribute&)\<close>,
  which reaches them through the base visitor's dispatch on the attribute kind.\<close>

text \<open>
  \<^verbatim>\<open>ASSERT_NOT_REACHED\<close> is a macro of \<^verbatim>\<open>wtf/Assertions.h\<close>, which is not among the sources,
  and what it expands to depends on the build.  \<open>visitBuiltinAttributeWith\<close> is
  \<^verbatim>\<open>visit(AST::BuiltinAttribute&)\<close> with the build as a parameter: where assertions are
  enabled the macro ends the run; where they are compiled out it is the empty statement,
  and control reaches the end of the function with nothing appended.
  \<open>visitBuiltinAttribute\<close> is the assertion-enabled build, as everywhere else in the
  writer.
\<close>

definition visitBuiltinAttributeWith :: "bool \<Rightarrow> string \<Rightarrow> Visit" where
  "visitBuiltinAttributeWith assertionsEnabled name w =
     (if name = ''vertex_index'' then Inr (appendString ''[[vertex_id]]'' w)
      else if name = ''position'' then Inr (appendString ''[[position]]'' w)
      else if assertionsEnabled then Inl AssertNotReached
      else Inr w)"

definition visitBuiltinAttribute :: "string \<Rightarrow> Visit" where
  "visitBuiltinAttribute name w = visitBuiltinAttributeWith True name w"

definition visitStageAttribute :: "Stage \<Rightarrow> Visit" where
  "visitStageAttribute stage w =
     (case stage of
        Vertex \<Rightarrow> Inr (appendString ''[[vertex]]'' w)
      | Fragment \<Rightarrow> Inr (appendString ''[[fragment]]'' w)
      | Compute \<Rightarrow> Inr (appendString ''[[compute]]'' w))"

definition visitLocationAttribute :: "int \<Rightarrow> Visit" where
  "visitLocationAttribute location w =
     Inr (appendString '')]]'' (appendString (showInt location) (appendString ''[[attribute('' w)))"

fun visitAttribute :: "Attribute \<Rightarrow> Visit" where
  "visitAttribute (BuiltinAttribute name) w = visitBuiltinAttribute name w"
| "visitAttribute (LocationAttribute location) w = visitLocationAttribute location w"
| "visitAttribute (StageAttribute stage) w = visitStageAttribute stage w"

section \<open>Statements\<close>

definition visitAssignmentStatement ::
  "('d, 'f) NumberFormat \<Rightarrow> ('d, 'f) Expression option \<Rightarrow> ('d, 'f) Expression \<Rightarrow> Visit" where
  "visitAssignmentStatement nf maybeLhs rhs w =
     (case maybeLhs of
        Some lhs \<Rightarrow>
          andThen (visitExpression nf lhs w) (\<lambda>w.
          visitExpression nf rhs (appendString '' = '' w))
      | None \<Rightarrow> visitExpression nf rhs w)"

definition visitReturnStatement ::
  "('d, 'f) NumberFormat \<Rightarrow> ('d, 'f) Expression option \<Rightarrow> Visit" where
  "visitReturnStatement nf maybeExpression w =
     (case maybeExpression of
        Some e \<Rightarrow> visitExpression nf e (appendString '' '' (appendString ''return'' w))
      | None \<Rightarrow> Inr (appendString ''return'' w))"

fun isCompoundStatement :: "('d, 'f) Statement \<Rightarrow> bool" where
  "isCompoundStatement (CompoundStatement ss) = True"
| "isCompoundStatement s = False"

text \<open>Modelled from the spec: \<open>dispatchStatement\<close> is \<^verbatim>\<open>AST::Visitor::visit(Statement&)\<close>, the
  base visitor's dispatch on the statement kind, and \<open>visitCompoundStatement\<close> is
  \<^verbatim>\<open>AST::Visitor::visit(CompoundStatement&)\<close>, which the writer does not override: it
  visits the child statements in order, each through the virtual \<^verbatim>\<open>visit(Statement&)\<close>.
  \<open>visitStatement\<close> is that virtual method, the writer's override, as the source has
  it.\<close>

function
  visitStatement :: "('d, 'f) NumberFormat \<Rightarrow> ('d, 'f) Statement \<Rightarrow> Visit" and
  dispatchStatement :: "('d, 'f) NumberFormat \<Rightarrow> ('d, 'f) Statement \<Rightarrow> Visit" and
  visitCompoundStatement :: "('d, 'f) NumberFormat \<Rightarrow> ('d, 'f) Statement list \<Rightarrow> Visit"
where
  "visitStatement nf statement w =
     andThen (dispatchStatement nf statement
                (if \<not> isCompoundStatement statement then appendIndent w else w)) (\<lambda>w.
     Inr (if \<not> isCompoundStatement statement then appendString '';\<newline>'' w else w))"
| "dispatchStatement nf (AssignmentStatement maybeLhs rhs) w =
     visitAssignmentStatement nf maybeLhs rhs w"
| "dispatchStatement nf (ReturnStatement maybeExpression) w =
     visitReturnStatement nf maybeExpression w"
| "dispatchStatement nf (CompoundStatement statements) w =
     visitCompoundStatement nf statements w"
| "visitCompoundStatement nf [] w = Inr w"
| "visitCompoundStatement nf (s # ss) w =
     andThen (visitStatement nf s w) (\<lambda>w. visitCompoundStatement nf ss w)"
  by pat_completeness auto
termination
  by (relation "measure (\<lambda>x. case x of
        Inl (nf, s, w) \<Rightarrow> 2 * size s + 1
      | Inr (Inl (nf, s, w)) \<Rightarrow> 2 * size s
      | Inr (Inr (nf, ss, w)) \<Rightarrow> 2 * size_list size ss)") auto

section \<open>Declarations\<close>

text \<open>\<^verbatim>\<open>checkErrorAndVisit(x)\<close> of the base visitor visits \<open>x\<close> unless an error has been
  recorded.  The writer never records one, so the call is the visit of \<open>x\<close>.\<close>

text \<open>The attribute loop of a parameter and of a struct member: a space, then the
  attribute.\<close>

fun visitTrailingAttributes :: "Attribute list \<Rightarrow> Visit" where
  "visitTrailingAttributes [] w = Inr w"
| "visitTrailingAttributes (a # as) w =
     andThen (visitAttribute a (appendString '' '' w)) (\<lambda>w.
     visitTrailingAttributes as w)"

definition visitParameter :: "('d, 'f) NumberFormat \<Rightarrow> ('d, 'f) Parameter \<Rightarrow> Visit" where
  "visitParameter nf parameter w =
     andThen (visitTypeDecl nf (parameter_type parameter) w) (\<lambda>w.
     visitTrailingAttributes (parameter_attributes parameter)
       (appendString (parameter_name parameter) (appendString '' '' w)))"

text \<open>The attribute loop of a function definition: the attribute, then a space.\<close>

fun visitFunctionAttributes :: "Attribute list \<Rightarrow> Visit" where
  "visitFunctionAttributes [] w = Inr w"
| "visitFunctionAttributes (a # as) w =
     andThen (visitAttribute a w) (\<lambda>w.
     visitFunctionAttributes as (appendString '' '' w))"

text \<open>The parameter loop of a function definition, with its \<open>first\<close> flag.\<close>

fun visitParameters :: "('d, 'f) NumberFormat \<Rightarrow> bool \<Rightarrow> ('d, 'f) Parameter list \<Rightarrow> Visit" where
  "visitParameters nf first [] w = Inr w"
| "visitParameters nf first (p # ps) w =
     andThen (visitParameter nf p (if first then w else appendString '', '' w)) (\<lambda>w.
     visitParameters nf False ps w)"

definition visitFunctionDecl :: "('d, 'f) NumberFormat \<Rightarrow> ('d, 'f) FunctionDecl \<Rightarrow> Visit" where
  "visitFunctionDecl nf functionDefinition w =
     (case function_maybeReturnType functionDefinition of
        None \<Rightarrow> Inl (AssertFailed ''functionDefinition.maybeReturnType()'')
      | Some returnType \<Rightarrow>
          andThen (visitFunctionAttributes (function_attributes functionDefinition) w) (\<lambda>w.
          andThen (visitTypeDecl nf returnType w) (\<lambda>w.
          andThen (visitParameters nf True (function_parameters functionDefinition)
                     (appendString ''('' (appendString (function_name functionDefinition)
                        (appendString '' '' w)))) (\<lambda>w.
          andThen (visitCompoundStatement nf (function_body functionDefinition)
                     (enterScope (appendString ''{\<newline>'' (appendString '')\<newline>'' w)))) (\<lambda>w.
          Inr (leaveScope (appendString ''}\<newline>\<newline>'' w)))))))"

fun visitStructMembers :: "('d, 'f) NumberFormat \<Rightarrow> ('d, 'f) StructMember list \<Rightarrow> Visit" where
  "visitStructMembers nf [] w = Inr w"
| "visitStructMembers nf (member # members) w =
     andThen (visitTypeDecl nf (member_type member) (appendIndent w)) (\<lambda>w.
     andThen (visitTrailingAttributes (member_attributes member)
                (appendString (member_name member) (appendString '' '' w))) (\<lambda>w.
     visitStructMembers nf members (appendString '';\<newline>'' w)))"

definition visitStructDecl :: "('d, 'f) NumberFormat \<Rightarrow> ('d, 'f) StructDecl \<Rightarrow> Visit" where
  "visitStructDecl nf structDecl w =
     andThen (visitStructMembers nf (struct_members structDecl)
                (enterScope (appendString '' {\<newline>'' (appendString (struct_name structDecl)
                   (appendString ''struct '' (appendIndent w)))))) (\<lambda>w.
     Inr (appendString ''};\<newline>\<newline>'' (appendIndent (leaveScope w))))"

definition visitVariableDecl :: "('d, 'f) NumberFormat \<Rightarrow> ('d, 'f) VariableDecl \<Rightarrow> Visit" where
  "visitVariableDecl nf variableDecl w =
     (case variable_maybeTypeDecl variableDecl of
        None \<Rightarrow> Inl (AssertFailed ''variableDecl.maybeTypeDecl()'')
      | Some typeDecl \<Rightarrow>
          andThen (visitTypeDecl nf typeDecl w) (\<lambda>w.
          (case variable_maybeInitializer variableDecl of
             Some initializer \<Rightarrow>
               visitExpression nf initializer
                 (appendString '' = '' (appendString (variable_name variableDecl)
                    (appendString '' '' w)))
           | None \<Rightarrow>
               Inr (appendString (variable_name variableDecl) (appendString '' '' w)))))"

text \<open>Modelled from the spec: \<^verbatim>\<open>AST::Visitor::visit(ShaderModule&)\<close>, to which the override
  forwards: the base visitor walks the top-level declarations in document order and
  visits each one through the virtual visit method of its kind.\<close>

fun visitDeclaration :: "('d, 'f) NumberFormat \<Rightarrow> ('d, 'f) Declaration \<Rightarrow> Visit" where
  "visitDeclaration nf (Struct structDecl) w = visitStructDecl nf structDecl w"
| "visitDeclaration nf (Function functionDecl) w = visitFunctionDecl nf functionDecl w"
| "visitDeclaration nf (GlobalVariable variableDecl) w = visitVariableDecl nf variableDecl w"

fun visitShaderModule :: "('d, 'f) NumberFormat \<Rightarrow> ('d, 'f) ShaderModule \<Rightarrow> Visit" where
  "visitShaderModule nf [] w = Inr w"
| "visitShaderModule nf (d # ds) w =
     andThen (visitDeclaration nf d w) (\<lambda>w. visitShaderModule nf ds w)"

section \<open>The entry point\<close>

record RenderMetalFunctionEntryPoints =
  vertexEntryPoint :: string
  fragmentEntryPoint :: string

text \<open>\<open>emitMetalFunctions\<close> builds a writer on the caller's string builder, with the
  indentation counter at 0, visits the module and returns two empty strings.  The result
  pairs the string builder's final contents with the returned record.\<close>

definition emitMetalFunctions ::
  "('d, 'f) NumberFormat \<Rightarrow> string \<Rightarrow> ('d, 'f) ShaderModule
     \<Rightarrow> Fatal + (string \<times> RenderMetalFunctionEntryPoints)" where
  "emitMetalFunctions nf stringBuilder module =
     (case visitShaderModule nf module \<lparr>m_stringBuilder = stringBuilder, m_indent = 0\<rparr> of
        Inl e \<Rightarrow> Inl e
      | Inr w \<Rightarrow>
          Inr (m_stringBuilder w, \<lparr>vertexEntryPoint = [], fragmentEntryPoint = []\<rparr>))"

section \<open>The visit overloads on one node type\<close>

text \<open>
  The writer's public \<^verbatim>\<open>visit\<close> methods form one overload set over the node classes.
  \<open>Node\<close> is the sum of the node classes a caller can pass, and \<open>visit\<close> selects the
  overload as C++ does from the static type of the argument.  The overrides for the
  subclasses of a type, an expression or an attribute are the equations of
  \<open>visitTypeDecl\<close>, \<open>visitExpression\<close> and \<open>visitAttribute\<close>; an assignment or a return
  statement can be visited as a statement (with indentation and terminator) or directly.
\<close>

datatype ('d, 'f) Node =
    ShaderModuleNode "('d, 'f) ShaderModule"
  | AttributeNode Attribute
  | FunctionDeclNode "('d, 'f) FunctionDecl"
  | StructDeclNode "('d, 'f) StructDecl"
  | VariableDeclNode "('d, 'f) VariableDecl"
  | ExpressionNode "('d, 'f) Expression"
  | StatementNode "('d, 'f) Statement"
  | AssignmentStatementNode "('d, 'f) Expression option" "('d, 'f) Expression"
  | ReturnStatementNode "('d, 'f) Expression option"
  | TypeDeclNode "('d, 'f) TypeDecl"
  | ParameterNode "('d, 'f) Parameter"

fun visit :: "('d, 'f) NumberFormat \<Rightarrow> ('d, 'f) Node \<Rightarrow> Visit" where
  "visit nf (ShaderModuleNode shaderModule) w = visitShaderModule nf shaderModule w"
| "visit nf (AttributeNode attribute) w = visitAttribute attribute w"
| "visit nf (FunctionDeclNode functionDefinition) w = visitFunctionDecl nf functionDefinition w"
| "visit nf (StructDeclNode structDecl) w = visitStructDecl nf structDecl w"
| "visit nf (VariableDeclNode variableDecl) w = visitVariableDecl nf variableDecl w"
| "visit nf (ExpressionNode expression) w = visitExpression nf expression w"
| "visit nf (StatementNode statement) w = visitStatement nf statement w"
| "visit nf (AssignmentStatementNode maybeLhs rhs) w = visitAssignmentStatement nf maybeLhs rhs w"
| "visit nf (ReturnStatementNode maybeExpression) w = visitReturnStatement nf maybeExpression w"
| "visit nf (TypeDeclNode type) w = visitTypeDecl nf type w"
| "visit nf (ParameterNode parameter) w = visitParameter nf parameter w"

section \<open>The text a visit appends\<close>

text \<open>\<open>emitted V i\<close> is what the visit \<open>V\<close> writes into an empty string builder at
  indentation level \<open>i\<close>, or the assertion that ends it.\<close>

definition emitted :: "Visit \<Rightarrow> nat \<Rightarrow> Fatal + string" where
  "emitted V i =
     (case V \<lparr>m_stringBuilder = [], m_indent = i\<rparr> of
        Inl e \<Rightarrow> Inl e
      | Inr w \<Rightarrow> Inr (m_stringBuilder w))"

text \<open>A visit is \<open>streaming\<close> when it only appends to the string builder, appends a text
  that depends on nothing but the indentation level, and hands the indentation counter
  back as it received it.\<close>

definition streaming :: "Visit \<Rightarrow> bool" where
  "streaming V \<longleftrightarrow>
     (\<exists>g. \<forall>w. V w = (case g (m_indent w) of Inl e \<Rightarrow> Inl e | Inr s \<Rightarrow> Inr (appendString s w)))"

text \<open>The argument list of call syntax: the rendered arguments with \<open>'', ''\<close> between
  them.\<close>

fun commaSeparated :: "string list \<Rightarrow> string" where
  "commaSeparated [] = []"
| "commaSeparated [t] = t"
| "commaSeparated (t # ts) = t @ '', '' @ commaSeparated ts"

text \<open>A number format for the worked examples.\<close>

definition exampleFormat :: "(unit, unit) NumberFormat" where
  "exampleFormat = \<lparr>formatDouble = \<lambda>d. ''0.5'', formatFloat = \<lambda>f. ''0.5''\<rparr>"

section \<open>Composition of streaming visits\<close>

text \<open>Each way the visit methods combine emission steps keeps a visit streaming:
  appending a string, running one step after another, appending before a step, and
  running a step inside an indentation scope.\<close>

lemma streamingI:
  "(\<And>w. V w = (case g (m_indent w) of Inl e \<Rightarrow> Inl e | Inr s \<Rightarrow> Inr (appendString s w)))
     \<Longrightarrow> streaming V"
  unfolding streaming_def by blast

lemma streaming_emitted:
  assumes "streaming V"
  shows "V w = (case emitted V (m_indent w) of Inl e \<Rightarrow> Inl e | Inr s \<Rightarrow> Inr (appendString s w))"
proof -
  from assms obtain g where g:
    "\<And>w. V w = (case g (m_indent w) of Inl e \<Rightarrow> Inl e | Inr s \<Rightarrow> Inr (appendString s w))"
    unfolding streaming_def by blast
  have "emitted V i = g i" for i
    unfolding emitted_def by (subst g) (simp add: appendString_def split: sum.split)
  then show ?thesis using g by simp
qed

lemma streaming_Inr: "streaming Inr"
  by (rule streamingI [where g = "\<lambda>i. Inr []"]) (simp add: appendString_def)

lemma streaming_Inl: "streaming (\<lambda>w. Inl e)"
  by (rule streamingI [where g = "\<lambda>i. Inl e"]) simp

lemma streaming_append: "streaming (\<lambda>w. Inr (appendString s w))"
  by (rule streamingI [where g = "\<lambda>i. Inr s"]) simp

lemma streaming_after_append:
  assumes "streaming V"
  shows "streaming (\<lambda>w. V (appendString s w))"
proof -
  from assms obtain g where g:
    "\<And>w. V w = (case g (m_indent w) of Inl e \<Rightarrow> Inl e | Inr s \<Rightarrow> Inr (appendString s w))"
    unfolding streaming_def by blast
  show ?thesis
    by (rule streamingI [where g = "\<lambda>i. map_sum id (\<lambda>t. s @ t) (g i)"])
       (simp add: g appendString_def split: sum.split)
qed

lemma streaming_after_indent:
  assumes "streaming V"
  shows "streaming (\<lambda>w. V (appendIndent w))"
proof -
  from assms obtain g where g:
    "\<And>w. V w = (case g (m_indent w) of Inl e \<Rightarrow> Inl e | Inr s \<Rightarrow> Inr (appendString s w))"
    unfolding streaming_def by blast
  show ?thesis
    by (rule streamingI [where g = "\<lambda>i. map_sum id (\<lambda>t. indentation i @ t) (g i)"])
       (simp add: g appendString_def appendIndent_def split: sum.split)
qed

lemma streaming_andThen:
  assumes "streaming V" and "streaming K"
  shows "streaming (\<lambda>w. andThen (V w) K)"
proof -
  from assms(1) obtain g where g:
    "\<And>w. V w = (case g (m_indent w) of Inl e \<Rightarrow> Inl e | Inr s \<Rightarrow> Inr (appendString s w))"
    unfolding streaming_def by blast
  from assms(2) obtain h where h:
    "\<And>w. K w = (case h (m_indent w) of Inl e \<Rightarrow> Inl e | Inr s \<Rightarrow> Inr (appendString s w))"
    unfolding streaming_def by blast
  show ?thesis
    by (rule streamingI [where g = "\<lambda>i. case g i of Inl e \<Rightarrow> Inl e
          | Inr s \<Rightarrow> map_sum id (\<lambda>t. s @ t) (h i)"])
       (simp add: g h andThen_def appendString_def split: sum.split)
qed

lemma streaming_scope:
  assumes "streaming V" and "streaming K"
  shows "streaming (\<lambda>w. andThen (V (enterScope w)) (\<lambda>w. K (leaveScope w)))"
proof -
  from assms(1) obtain g where g:
    "\<And>w. V w = (case g (m_indent w) of Inl e \<Rightarrow> Inl e | Inr s \<Rightarrow> Inr (appendString s w))"
    unfolding streaming_def by blast
  from assms(2) obtain h where h:
    "\<And>w. K w = (case h (m_indent w) of Inl e \<Rightarrow> Inl e | Inr s \<Rightarrow> Inr (appendString s w))"
    unfolding streaming_def by blast
  show ?thesis
    by (rule streamingI [where g = "\<lambda>i. case g (Suc i) of Inl e \<Rightarrow> Inl e
          | Inr s \<Rightarrow> map_sum id (\<lambda>t. s @ t) (h i)"])
       (simp add: g h andThen_def appendString_def enterScope_def leaveScope_def split: sum.split)
qed

lemma streaming_if:
  "streaming V \<Longrightarrow> streaming K \<Longrightarrow> streaming (\<lambda>w. if c then V w else K w)"
  by (cases c) simp_all

lemma streaming_cong: "(\<And>w. V w = V' w) \<Longrightarrow> streaming V' \<Longrightarrow> streaming V"
proof -
  assume "\<And>w. V w = V' w" then have "V = V'" by (rule ext)
  then show "streaming V' \<Longrightarrow> streaming V" by simp
qed

lemma streaming_after_separator:
  "streaming V \<Longrightarrow> streaming (\<lambda>w. V (if first then w else appendString s w))"
  by (cases first) (simp_all add: streaming_after_append)

lemmas streaming_intros =
  streaming_Inr streaming_Inl streaming_append streaming_andThen streaming_if
  streaming_after_append streaming_after_indent streaming_after_separator

lemma streaming_array_scope:
  assumes "streaming V"
  shows "streaming (\<lambda>w. andThen (V (enterScope (appendString s w)))
           (\<lambda>w. Inr (appendString s' (appendIndent (leaveScope w)))))"
  using streaming_after_append [OF streaming_scope [OF assms streaming_after_indent [OF streaming_append [of s']]], of s]
  by simp

section \<open>Every visit is streaming\<close>

text \<open>By induction along the recursion of the visitors; the loops of the declarations by
  induction on their lists.\<close>

lemma streaming_types_expressions:
  fixes w0 w1 w2 w3 :: Writer
  shows "streaming (visitTypeDecl nf t)"
    and "streaming (visitExpression nf e)"
    and "streaming (visitArrayArguments nf as)"
    and "streaming (visitCallArguments nf first as')"
proof (induction nf t w0 and nf e w1 and nf as w2 and nf first as' w3
    rule: visitTypeDecl_visitExpression_visitArrayArguments_visitCallArguments.induct)
  case (20 nf target arguments w)
  show ?case
  proof (cases "isArrayType target")
    case True
    then have eq: "visitExpression nf (CallableExpression target arguments) w =
        andThen (visitArrayArguments nf arguments (enterScope (appendString ''{\<newline>'' w)))
          (\<lambda>w. Inr (appendString ''}'' (appendIndent (leaveScope w))))" for w
      by simp
    show ?thesis
      by (rule streaming_cong [OF eq], rule streaming_array_scope, rule 20(1) [OF True])
  next
    case False
    then have eq: "visitExpression nf (CallableExpression target arguments) w =
        andThen (visitTypeDecl nf target w) (\<lambda>w.
        andThen (visitCallArguments nf True arguments (appendString ''('' w)) (\<lambda>w.
        Inr (appendString '')'' w)))" for w
      by simp
    show ?thesis
      apply (rule streaming_cong [OF eq])
      apply (rule streaming_andThen, rule 20(2) [OF False])
      apply (rule streaming_andThen)
       apply (rule streaming_after_append, rule 20(3) [OF False])
      apply (rule streaming_append)
      done
  qed
qed ((rule streaming_cong,
      rule visitTypeDecl.simps visitExpression.simps visitArrayArguments.simps
           visitCallArguments.simps,
      intro streaming_intros; assumption)+)

lemma leaveScope_appendString: "leaveScope (appendString s w) = appendString s (leaveScope w)"
  by (simp add: leaveScope_def appendString_def)

lemma streaming_visitAttribute: "streaming (visitAttribute a)"
proof (cases a)
  case (BuiltinAttribute name)
  show ?thesis unfolding BuiltinAttribute
    by (rule streaming_cong, rule visitAttribute.simps, rule streaming_cong,
        rule visitBuiltinAttribute_def, rule streaming_cong,
        rule visitBuiltinAttributeWith_def, intro streaming_intros)
next
  case (LocationAttribute location)
  show ?thesis unfolding LocationAttribute
    by (rule streaming_cong, rule visitAttribute.simps, rule streaming_cong,
        rule visitLocationAttribute_def, intro streaming_intros)
next
  case (StageAttribute stage)
  show ?thesis unfolding StageAttribute
    by (rule streaming_cong, rule visitAttribute.simps, rule streaming_cong,
        rule visitStageAttribute_def, cases stage) (simp_all add: streaming_append)
qed

lemma streaming_visitAssignmentStatement: "streaming (visitAssignmentStatement nf maybeLhs rhs)"
proof (cases maybeLhs)
  case None
  have "visitAssignmentStatement nf maybeLhs rhs = visitExpression nf rhs"
    by (rule ext) (simp add: visitAssignmentStatement_def None)
  then show ?thesis by (simp add: streaming_types_expressions)
next
  case (Some lhs)
  have "visitAssignmentStatement nf maybeLhs rhs =
      (\<lambda>w. andThen (visitExpression nf lhs w) (\<lambda>w. visitExpression nf rhs (appendString '' = '' w)))"
    by (rule ext) (simp add: visitAssignmentStatement_def Some)
  then show ?thesis
    by (simp add: streaming_andThen streaming_after_append streaming_types_expressions)
qed

lemma streaming_visitReturnStatement: "streaming (visitReturnStatement nf maybeExpression)"
proof (cases maybeExpression)
  case None
  then show ?thesis
    by (intro streaming_cong [OF visitReturnStatement_def]) (simp add: streaming_append)
next
  case (Some e)
  then show ?thesis
    by (intro streaming_cong [OF visitReturnStatement_def])
       (simp, intro streaming_after_append streaming_types_expressions)
qed

lemma streaming_statements:
  fixes w0 w1 w2 :: Writer
  shows "streaming (visitStatement nf s)"
    and "streaming (dispatchStatement nf s')"
    and "streaming (visitCompoundStatement nf ss)"
proof (induction nf s w0 and nf s' w1 and nf ss w2
    rule: visitStatement_dispatchStatement_visitCompoundStatement.induct)
  case (1 nf statement w)
  then have d: "streaming (dispatchStatement nf statement)" by simp
  show ?case
  proof (cases "isCompoundStatement statement")
    case True
    then have "visitStatement nf statement = (\<lambda>w. andThen (dispatchStatement nf statement w) Inr)"
      by (intro ext) simp
    then show ?thesis by (simp add: streaming_andThen streaming_Inr d)
  next
    case False
    then have "visitStatement nf statement =
        (\<lambda>w. andThen (dispatchStatement nf statement (appendIndent w))
           (\<lambda>w. Inr (appendString '';\<newline>'' w)))"
      by (intro ext) simp
    then show ?thesis
      by (simp add: streaming_andThen streaming_after_indent streaming_append d)
  qed
next
  case (2 nf maybeLhs rhs w)
  show ?case
    by (rule streaming_cong, rule dispatchStatement.simps, rule streaming_visitAssignmentStatement)
next
  case (3 nf maybeExpression w)
  show ?case
    by (rule streaming_cong, rule dispatchStatement.simps, rule streaming_visitReturnStatement)
next
  case (4 nf statements w)
  then show ?case
    by (intro streaming_cong [OF dispatchStatement.simps(3)])
next
  case (5 nf w)
  show ?case
    by (rule streaming_cong, rule visitCompoundStatement.simps, rule streaming_Inr)
next
  case (6 nf s ss w)
  then show ?case
    by (intro streaming_cong [OF visitCompoundStatement.simps(2)] streaming_andThen)
qed

lemma streaming_visitTrailingAttributes: "streaming (visitTrailingAttributes as)"
proof (induction as)
  case Nil
  show ?case
    by (rule streaming_cong, rule visitTrailingAttributes.simps, rule streaming_Inr)
next
  case (Cons a as)
  show ?case
    by (rule streaming_cong, rule visitTrailingAttributes.simps)
       (intro streaming_andThen streaming_after_append streaming_visitAttribute Cons)
qed

lemma streaming_visitFunctionAttributes: "streaming (visitFunctionAttributes as)"
proof (induction as)
  case Nil
  show ?case
    by (rule streaming_cong, rule visitFunctionAttributes.simps, rule streaming_Inr)
next
  case (Cons a as)
  show ?case
    by (rule streaming_cong, rule visitFunctionAttributes.simps)
       (intro streaming_andThen streaming_after_append streaming_visitAttribute Cons)
qed

lemma streaming_visitParameter: "streaming (visitParameter nf p)"
  by (rule streaming_cong, rule visitParameter_def)
     (intro streaming_andThen streaming_after_append streaming_types_expressions
        streaming_visitTrailingAttributes)

lemma streaming_visitParameters: "streaming (visitParameters nf first ps)"
proof (induction ps arbitrary: first)
  case Nil
  show ?case
    by (rule streaming_cong, rule visitParameters.simps, rule streaming_Inr)
next
  case (Cons p ps)
  show ?case
    by (rule streaming_cong, rule visitParameters.simps)
       (intro streaming_andThen streaming_after_separator streaming_visitParameter Cons)
qed

lemma streaming_function_body:
  assumes "streaming V"
  shows "streaming (\<lambda>w. andThen (V (enterScope (appendString a (appendString b w))))
           (\<lambda>w. Inr (leaveScope (appendString c w))))"
  using streaming_after_append [OF streaming_after_append
          [OF streaming_scope [OF assms streaming_append [of c]], of a], of b]
  by (simp add: leaveScope_appendString)

lemma streaming_visitFunctionDecl: "streaming (visitFunctionDecl nf f)"
proof (cases "function_maybeReturnType f")
  case None
  then have "visitFunctionDecl nf f = (\<lambda>w. Inl (AssertFailed ''functionDefinition.maybeReturnType()''))"
    by (intro ext) (simp add: visitFunctionDecl_def)
  then show ?thesis by (simp add: streaming_Inl)
next
  case (Some returnType)
  have eq: "visitFunctionDecl nf f w =
      andThen (visitFunctionAttributes (function_attributes f) w) (\<lambda>w.
          andThen (visitTypeDecl nf returnType w) (\<lambda>w.
          andThen (visitParameters nf True (function_parameters f)
                     (appendString ''('' (appendString (function_name f)
                        (appendString '' '' w)))) (\<lambda>w.
          andThen (visitCompoundStatement nf (function_body f)
                     (enterScope (appendString ''{\<newline>'' (appendString '')\<newline>'' w)))) (\<lambda>w.
          Inr (leaveScope (appendString ''}\<newline>\<newline>'' w))))))" for w
    by (simp add: visitFunctionDecl_def Some)
  show ?thesis
    apply (rule streaming_cong [OF eq])
    apply (rule streaming_andThen, rule streaming_visitFunctionAttributes)
    apply (rule streaming_andThen, rule streaming_types_expressions)
    apply (rule streaming_andThen)
     apply (intro streaming_after_append streaming_visitParameters)
    apply (rule streaming_function_body, rule streaming_statements)
    done
qed

lemma streaming_struct_scope:
  assumes "streaming V"
  shows "streaming (\<lambda>w. andThen (V (enterScope (appendString a (appendString b
                      (appendString c (appendIndent w))))))
           (\<lambda>w. Inr (appendString d (appendIndent (leaveScope w)))))"
  using streaming_after_indent [OF streaming_after_append [OF streaming_after_append
          [OF streaming_after_append [OF streaming_scope [OF assms
             streaming_after_indent [OF streaming_append [of d]]], of a], of b], of c]]
  by simp

lemma streaming_visitStructMembers: "streaming (visitStructMembers nf ms)"
proof (induction ms)
  case Nil
  show ?case
    by (rule streaming_cong, rule visitStructMembers.simps, rule streaming_Inr)
next
  case (Cons m ms)
  show ?case
    apply (rule streaming_cong, rule visitStructMembers.simps)
    apply (rule streaming_andThen)
     apply (rule streaming_after_indent, rule streaming_types_expressions)
    apply (rule streaming_andThen)
     apply (intro streaming_after_append streaming_visitTrailingAttributes)
    apply (rule streaming_after_append, rule Cons)
    done
qed

lemma streaming_visitStructDecl: "streaming (visitStructDecl nf s)"
  by (rule streaming_cong, rule visitStructDecl_def, rule streaming_struct_scope,
      rule streaming_visitStructMembers)

lemma streaming_visitVariableDecl: "streaming (visitVariableDecl nf v)"
proof (cases "variable_maybeTypeDecl v")
  case None
  then have "visitVariableDecl nf v = (\<lambda>w. Inl (AssertFailed ''variableDecl.maybeTypeDecl()''))"
    by (intro ext) (simp add: visitVariableDecl_def)
  then show ?thesis by (simp add: streaming_Inl)
next
  case t: (Some typeDecl)
  show ?thesis
  proof (cases "variable_maybeInitializer v")
    case None
    have eq: "visitVariableDecl nf v w =
        andThen (visitTypeDecl nf typeDecl w) (\<lambda>w.
          Inr (appendString (variable_name v) (appendString '' '' w)))" for w
      by (simp add: visitVariableDecl_def t None)
    show ?thesis
      apply (rule streaming_cong [OF eq])
      apply (rule streaming_andThen, rule streaming_types_expressions)
      apply (rule streaming_after_append, rule streaming_append)
      done
  next
    case (Some initializer)
    have eq: "visitVariableDecl nf v w =
        andThen (visitTypeDecl nf typeDecl w) (\<lambda>w.
          visitExpression nf initializer
            (appendString '' = '' (appendString (variable_name v) (appendString '' '' w))))" for w
      by (simp add: visitVariableDecl_def t Some)
    show ?thesis
      apply (rule streaming_cong [OF eq])
      apply (rule streaming_andThen, rule streaming_types_expressions)
      apply (intro streaming_after_append streaming_types_expressions)
      done
  qed
qed

lemma streaming_visitDeclaration: "streaming (visitDeclaration nf d)"
  by (cases d)
     (simp_all add: streaming_cong [OF visitDeclaration.simps(1)]
        streaming_cong [OF visitDeclaration.simps(2)]
        streaming_cong [OF visitDeclaration.simps(3)]
        streaming_visitStructDecl streaming_visitFunctionDecl streaming_visitVariableDecl)

lemma streaming_visitShaderModule: "streaming (visitShaderModule nf ds)"
proof (induction ds)
  case Nil
  show ?case
    by (rule streaming_cong, rule visitShaderModule.simps, rule streaming_Inr)
next
  case (Cons d ds)
  show ?case
    by (rule streaming_cong, rule visitShaderModule.simps, rule streaming_andThen,
        rule streaming_visitDeclaration, rule Cons)
qed

lemma streaming_visit: "streaming (visit nf node)"
proof (cases node)
  case (ShaderModuleNode m)
  show ?thesis unfolding ShaderModuleNode
    by (rule streaming_cong, rule visit.simps, rule streaming_visitShaderModule)
next
  case (AttributeNode a)
  show ?thesis unfolding AttributeNode
    by (rule streaming_cong, rule visit.simps, rule streaming_visitAttribute)
next
  case (FunctionDeclNode f)
  show ?thesis unfolding FunctionDeclNode
    by (rule streaming_cong, rule visit.simps, rule streaming_visitFunctionDecl)
next
  case (StructDeclNode s)
  show ?thesis unfolding StructDeclNode
    by (rule streaming_cong, rule visit.simps, rule streaming_visitStructDecl)
next
  case (VariableDeclNode v)
  show ?thesis unfolding VariableDeclNode
    by (rule streaming_cong, rule visit.simps, rule streaming_visitVariableDecl)
next
  case (ExpressionNode e)
  show ?thesis unfolding ExpressionNode
    by (rule streaming_cong, rule visit.simps, rule streaming_types_expressions)
next
  case (StatementNode s)
  show ?thesis unfolding StatementNode
    by (rule streaming_cong, rule visit.simps, rule streaming_statements)
next
  case (AssignmentStatementNode l r)
  show ?thesis unfolding AssignmentStatementNode
    by (rule streaming_cong, rule visit.simps, rule streaming_visitAssignmentStatement)
next
  case (ReturnStatementNode e)
  show ?thesis unfolding ReturnStatementNode
    by (rule streaming_cong, rule visit.simps, rule streaming_visitReturnStatement)
next
  case (TypeDeclNode t)
  show ?thesis unfolding TypeDeclNode
    by (rule streaming_cong, rule visit.simps, rule streaming_types_expressions)
next
  case (ParameterNode p)
  show ?thesis unfolding ParameterNode
    by (rule streaming_cong, rule visit.simps, rule streaming_visitParameter)
qed

section \<open>The text of the loops\<close>

lemma andThen_Inr [simp]: "andThen (Inr w) k = k w"
  by (simp add: andThen_def)

lemma andThen_Inl [simp]: "andThen (Inl e) k = Inl e"
  by (simp add: andThen_def)

lemma appendString_appendString [simp]:
  "appendString t (appendString s w) = appendString (s @ t) w"
  by (simp add: appendString_def)

lemma m_indent_appendString [simp]: "m_indent (appendString s w) = m_indent w"
  by (simp add: appendString_def)

lemma m_stringBuilder_appendString [simp]:
  "m_stringBuilder (appendString s w) = m_stringBuilder w @ s"
  by (simp add: appendString_def)

lemma appendString_Nil [simp]: "appendString [] w = w"
  by (simp add: appendString_def)

lemma emitted_Inr:
  "streaming V \<Longrightarrow> emitted V (m_indent w) = Inr s \<Longrightarrow> V w = Inr (appendString s w)"
  by (simp add: streaming_emitted [of V w])

lemma emitted_Inl:
  "streaming V \<Longrightarrow> emitted V (m_indent w) = Inl e \<Longrightarrow> V w = Inl e"
  by (simp add: streaming_emitted [of V w])

lemmas typeDecl_emitted = emitted_Inr [OF streaming_types_expressions(1)]
lemmas expression_emitted = emitted_Inr [OF streaming_types_expressions(2)]

lemmas visitTypeDecl_emitted = streaming_emitted [OF streaming_types_expressions(1)]
lemmas visitExpression_emitted = streaming_emitted [OF streaming_types_expressions(2)]
lemmas visitStatement_emitted = streaming_emitted [OF streaming_statements(1)]
lemmas dispatchStatement_emitted = streaming_emitted [OF streaming_statements(2)]

lemma visitArrayArguments_output:
  "list_all2 (\<lambda>a t. emitted (visitExpression nf a) i = Inr t) arguments ts \<Longrightarrow>
   m_indent w = i \<Longrightarrow>
   visitArrayArguments nf arguments w =
     Inr (appendString (concat (map (\<lambda>t. indentation i @ t @ '',\<newline>'') ts)) w)"
proof (induction arguments ts arbitrary: w rule: list_all2_induct)
  case Nil
  show ?case by simp
next
  case (Cons a arguments t ts)
  from Cons.hyps(1) Cons.prems have "visitExpression nf a (appendIndent w) =
      Inr (appendString (indentation i @ t) w)"
    by (simp add: appendIndent_def visitExpression_emitted)
  moreover have "visitArrayArguments nf arguments (appendString (indentation i @ t @ '',\<newline>'') w) =
      Inr (appendString (concat (map (\<lambda>t. indentation i @ t @ '',\<newline>'') ts))
        (appendString (indentation i @ t @ '',\<newline>'') w))"
    using Cons.IH [of "appendString (indentation i @ t @ '',\<newline>'') w"] Cons.prems
    by simp
  ultimately show ?case by simp
qed

lemma visitCallArguments_rest:
  "list_all2 (\<lambda>a t. emitted (visitExpression nf a) i = Inr t) arguments ts \<Longrightarrow>
   m_indent w = i \<Longrightarrow>
   visitCallArguments nf False arguments w =
     Inr (appendString (concat (map (\<lambda>t. '', '' @ t) ts)) w)"
proof (induction arguments ts arbitrary: w rule: list_all2_induct)
  case Nil
  show ?case by simp
next
  case (Cons a arguments t ts)
  from Cons.hyps(1) Cons.prems have "visitExpression nf a (appendString '', '' w) =
      Inr (appendString ('', '' @ t) w)"
    by (simp add: visitExpression_emitted)
  moreover have "visitCallArguments nf False arguments (appendString ('', '' @ t) w) =
      Inr (appendString (concat (map (\<lambda>t. '', '' @ t) ts)) (appendString ('', '' @ t) w))"
    using Cons.IH [of "appendString ('', '' @ t) w"] Cons.prems by simp
  ultimately show ?case by simp
qed

lemma commaSeparated_Cons: "commaSeparated (t # ts) = t @ concat (map (\<lambda>t. '', '' @ t) ts)"
  by (induction ts arbitrary: t) simp_all

lemma visitCallArguments_output:
  assumes "list_all2 (\<lambda>a t. emitted (visitExpression nf a) (m_indent w) = Inr t) arguments ts"
  shows "visitCallArguments nf True arguments w = Inr (appendString (commaSeparated ts) w)"
proof (cases arguments)
  case Nil
  with assms show ?thesis by simp
next
  case (Cons a arguments')
  with assms obtain t ts' where ts: "ts = t # ts'"
    and t: "emitted (visitExpression nf a) (m_indent w) = Inr t"
    and rest: "list_all2 (\<lambda>a t. emitted (visitExpression nf a) (m_indent w) = Inr t) arguments' ts'"
    by (auto simp: list_all2_Cons1)
  from t have "visitExpression nf a w = Inr (appendString t w)"
    by (simp add: visitExpression_emitted)
  moreover have "visitCallArguments nf False arguments' (appendString t w) =
      Inr (appendString (concat (map (\<lambda>t. '', '' @ t) ts')) (appendString t w))"
    using visitCallArguments_rest [OF rest, of "appendString t w"] by simp
  ultimately show ?thesis
    using Cons ts by (simp add: commaSeparated_Cons del: commaSeparated.simps)
qed

lemma m_indent_enterScope [simp]: "m_indent (enterScope w) = Suc (m_indent w)"
  by (simp add: enterScope_def)

lemma leaveScope_enterScope [simp]: "leaveScope (appendString s (enterScope w)) = appendString s w"
  by (simp add: leaveScope_def enterScope_def appendString_def)

lemma visitCompoundStatement_output:
  "list_all2 (\<lambda>c t. emitted (visitStatement nf c) i = Inr t) children ts \<Longrightarrow>
   m_indent w = i \<Longrightarrow>
   visitCompoundStatement nf children w = Inr (appendString (concat ts) w)"
proof (induction children ts arbitrary: w rule: list_all2_induct)
  case Nil
  show ?case by simp
next
  case (Cons c children t ts)
  from Cons.hyps(1) Cons.prems have "visitStatement nf c w = Inr (appendString t w)"
    by (simp add: visitStatement_emitted del: visitStatement.simps)
  moreover have "visitCompoundStatement nf children (appendString t w) =
      Inr (appendString (concat ts) (appendString t w))"
    using Cons.IH [of "appendString t w"] Cons.prems by simp
  ultimately show ?case by simp
qed

lemma emitMetalFunctions_emitted:
  "emitMetalFunctions nf b m =
     (case emitted (visitShaderModule nf m) 0 of
        Inl e \<Rightarrow> Inl e
      | Inr s \<Rightarrow> Inr (b @ s, \<lparr>vertexEntryPoint = [], fragmentEntryPoint = []\<rparr>))"
  unfolding emitMetalFunctions_def
  by (subst streaming_emitted [OF streaming_visitShaderModule]) (simp split: sum.split)

section \<open>Evaluation of the worked examples\<close>

lemma showInt_examples: "showInt 1 = ''1''" "showInt 2 = ''2''" "showInt 3 = ''3''"
  by (simp_all add: showInt_def digitChar_def)

lemma indentation_0: "indentation 0 = []"
  by (simp add: indentation_def)

lemma indentation_Suc: "indentation (Suc n) = ''    '' @ indentation n"
  by (simp add: indentation_def eval_nat_numeral)

lemmas indentation_examples = indentation_0 indentation_Suc

lemmas writer_defs = appendString_def appendIndent_def enterScope_def leaveScope_def

section \<open>Properties of the writer\<close>

subsection \<open>Entry points\<close>

text \<open>
  C1.  \<open>emitMetalFunctions\<close> is to return the names of the functions that carry the
  vertex and the fragment stage attribute.  The source returns two empty strings for
  every module (its comment reads \<^verbatim>\<open>FIXME: return the actual entry points\<close>): for the
  module below, whose only function \<open>main\<close> carries the vertex stage attribute, the text
  is emitted and both names come back empty.
\<close>

theorem emitMetalFunctions_entry_points_not_reported:
  "emitMetalFunctions exampleFormat []
     [Function \<lparr>function_attributes = [StageAttribute Vertex],
                function_maybeReturnType = Some (NamedType ''void''),
                function_name = ''main'',
                function_parameters = [],
                function_body = [ReturnStatement None]\<rparr>]
   = Inr (''[[vertex]] void main()\<newline>{\<newline>    return;\<newline>}\<newline>\<newline>'',
          \<lparr>vertexEntryPoint = [], fragmentEntryPoint = []\<rparr>)"
  by (simp add: emitMetalFunctions_def visitFunctionDecl_def visitStageAttribute_def
      visitReturnStatement_def writer_defs indentation_examples)

text \<open>
  C9.  Code generation is deterministic and depends on the module alone: run on a string
  builder holding \<open>b\<close>, \<open>emitMetalFunctions\<close> fails exactly when the run on an empty
  string builder fails, with the same assertion, and otherwise appends to \<open>b\<close> the very
  text \<open>s\<close> of that run and returns the same record.  Two runs on the same module, and a
  second run on the output of the first, therefore append byte-identical text.
\<close>

theorem emitMetalFunctions_deterministic:
  "emitMetalFunctions nf b m =
     (case emitMetalFunctions nf [] m of
        Inl e \<Rightarrow> Inl e
      | Inr (s, r) \<Rightarrow> Inr (b @ s, r))"
  by (simp add: emitMetalFunctions_emitted [of nf b] emitMetalFunctions_emitted [of nf "[]"]
      split: sum.split)

subsection \<open>Types\<close>

text \<open>
  C2.  A parameterized type whose base is one of the eight matrix shapes other than 4x4
  reaches \<^verbatim>\<open>ASSERT_NOT_REACHED\<close>; for the 4x4 shape the visit returns the writer
  unchanged: nothing is appended and nothing fails.
\<close>

theorem parameterizedType_matrix:
  "visitTypeDecl nf (ParameterizedType Mat2x2 t) w = Inl AssertNotReached
   \<and> visitTypeDecl nf (ParameterizedType Mat2x3 t) w = Inl AssertNotReached
   \<and> visitTypeDecl nf (ParameterizedType Mat2x4 t) w = Inl AssertNotReached
   \<and> visitTypeDecl nf (ParameterizedType Mat3x2 t) w = Inl AssertNotReached
   \<and> visitTypeDecl nf (ParameterizedType Mat3x3 t) w = Inl AssertNotReached
   \<and> visitTypeDecl nf (ParameterizedType Mat3x4 t) w = Inl AssertNotReached
   \<and> visitTypeDecl nf (ParameterizedType Mat4x2 t) w = Inl AssertNotReached
   \<and> visitTypeDecl nf (ParameterizedType Mat4x3 t) w = Inl AssertNotReached
   \<and> visitTypeDecl nf (ParameterizedType Mat4x4 t) w = Inr w"
  by simp

text \<open>
  C5.  A named type is translated by its name alone: \<open>i32\<close> gives \<open>int\<close>, \<open>f32\<close> gives
  \<open>float\<close>, \<open>u32\<close> gives \<open>unsigned\<close>, and every other name is appended unchanged.
\<close>

theorem namedType_translation:
  "visitTypeDecl nf (NamedType ''i32'') w = Inr (appendString ''int'' w)
   \<and> visitTypeDecl nf (NamedType ''f32'') w = Inr (appendString ''float'' w)
   \<and> visitTypeDecl nf (NamedType ''u32'') w = Inr (appendString ''unsigned'' w)
   \<and> (n \<notin> {''i32'', ''f32'', ''u32''} \<longrightarrow>
        visitTypeDecl nf (NamedType n) w = Inr (appendString n w))"
  by simp

theorem namedType_translation_witness:
  "''MyStruct'' \<notin> {''i32'', ''f32'', ''u32''}
   \<and> visitTypeDecl exampleFormat (NamedType ''MyStruct'')
         \<lparr>m_stringBuilder = ''    '', m_indent = 1\<rparr>
       = Inr \<lparr>m_stringBuilder = ''    MyStruct'', m_indent = 1\<rparr>"
  using namedType_translation [of exampleFormat "\<lparr>m_stringBuilder = ''    '', m_indent = 1\<rparr>"
      "''MyStruct''"]
  by (simp add: appendString_def)

text \<open>
  C6.  For an array type whose element type \<open>T\<close> and element count \<open>C\<close> are both
  present, the appended text is exactly \<open>array<\<close>, the text of \<open>T\<close>, \<open>, \<close>, the text of
  \<open>C\<close> and \<open>>\<close>.
\<close>

theorem arrayType_output:
  assumes "emitted (visitTypeDecl nf T) (m_indent w) = Inr sT"
    and "emitted (visitExpression nf C) (m_indent w) = Inr sC"
  shows "visitTypeDecl nf (ArrayType (Some T) (Some C)) w =
           Inr (appendString (''array<'' @ sT @ '', '' @ sC @ ''>'') w)"
  using assms by (simp add: typeDecl_emitted expression_emitted)

theorem arrayType_output_witness:
  "emitted (visitTypeDecl exampleFormat (NamedType ''f32'')) 1 = Inr ''float''
   \<and> emitted (visitExpression exampleFormat (AbstractIntLiteral 3)) 1 = Inr ''3''
   \<and> visitTypeDecl exampleFormat
         (ArrayType (Some (NamedType ''f32'')) (Some (AbstractIntLiteral 3)))
         \<lparr>m_stringBuilder = ''    '', m_indent = 1\<rparr>
       = Inr \<lparr>m_stringBuilder = ''    array<float, 3>'', m_indent = 1\<rparr>"
proof -
  let ?w = "\<lparr>m_stringBuilder = ''    '', m_indent = 1\<rparr>"
  have a: "emitted (visitTypeDecl exampleFormat (NamedType ''f32'')) (m_indent ?w) = Inr ''float''"
    by (simp add: emitted_def writer_defs)
  have b: "emitted (visitExpression exampleFormat (AbstractIntLiteral 3)) (m_indent ?w) = Inr ''3''"
    by (simp add: emitted_def writer_defs showInt_examples)
  show ?thesis
    using arrayType_output [OF a b] a b by (simp add: writer_defs showInt_examples)
qed

text \<open>
  C7.  An array type with an element type and no element count fails the assertion on
  the count and yields no writer.  When both are present the visit has no fatal branch
  of its own: if it fails, it fails with the assertion that the visit of the element type
  or of the element count runs into.
\<close>

theorem arrayType_missing_count:
  "visitTypeDecl nf (ArrayType (Some T) None) w = Inl (AssertFailed ''type.maybeElementCount()'')
   \<and> (visitTypeDecl nf (ArrayType (Some T) (Some C)) w = Inl e \<longrightarrow>
        emitted (visitTypeDecl nf T) (m_indent w) = Inl e
        \<or> emitted (visitExpression nf C) (m_indent w) = Inl e)"
proof -
  have "emitted (visitTypeDecl nf T) (m_indent w) = Inl e
        \<or> emitted (visitExpression nf C) (m_indent w) = Inl e"
    if fails: "visitTypeDecl nf (ArrayType (Some T) (Some C)) w = Inl e"
  proof (cases "emitted (visitTypeDecl nf T) (m_indent w)")
    case (Inl e')
    then have "visitTypeDecl nf T (appendString ''array<'' w) = Inl e'"
      by (simp add: emitted_Inl streaming_types_expressions)
    with fails Inl show ?thesis by simp
  next
    case T: (Inr sT)
    then have T': "visitTypeDecl nf T (appendString ''array<'' w) = Inr (appendString (''array<'' @ sT) w)"
      by (simp add: typeDecl_emitted)
    show ?thesis
    proof (cases "emitted (visitExpression nf C) (m_indent w)")
      case (Inl e')
      then have "visitExpression nf C (appendString (''array<'' @ sT @ '', '') w) = Inl e'"
        by (simp add: emitted_Inl streaming_types_expressions)
      with fails T' Inl show ?thesis by simp
    next
      case (Inr sC)
      then have "visitExpression nf C (appendString (''array<'' @ sT @ '', '') w)
          = Inr (appendString (''array<'' @ sT @ '', '' @ sC) w)"
        by (simp add: expression_emitted)
      with fails T' show ?thesis by simp
    qed
  qed
  then show ?thesis by simp
qed

theorem arrayType_missing_count_witness:
  "visitTypeDecl exampleFormat
     (ArrayType (Some (ParameterizedType Mat2x2 (NamedType ''f32''))) (Some (AbstractIntLiteral 3)))
     \<lparr>m_stringBuilder = [], m_indent = 0\<rparr>
   = Inl AssertNotReached
   \<and> emitted (visitTypeDecl exampleFormat (ParameterizedType Mat2x2 (NamedType ''f32''))) 0
       = Inl AssertNotReached
   \<and> emitted (visitExpression exampleFormat (AbstractIntLiteral 3)) 0 \<noteq> Inl AssertNotReached
   \<and> visitTypeDecl exampleFormat (ArrayType (Some (NamedType ''f32'')) None)
         \<lparr>m_stringBuilder = [], m_indent = 0\<rparr>
       = Inl (AssertFailed ''type.maybeElementCount()'')"
proof -
  let ?w = "\<lparr>m_stringBuilder = [], m_indent = 0\<rparr>"
  let ?T = "ParameterizedType Mat2x2 (NamedType ''f32'') :: (unit, unit) TypeDecl"
  let ?C = "AbstractIntLiteral 3 :: (unit, unit) Expression"
  have a: "visitTypeDecl exampleFormat (ArrayType (Some ?T) (Some ?C)) ?w = Inl AssertNotReached"
    by simp
  have b: "emitted (visitExpression exampleFormat ?C) 0 \<noteq> Inl AssertNotReached"
    by (simp add: emitted_def)
  show ?thesis
    using arrayType_missing_count [of exampleFormat ?T ?w ?C AssertNotReached] a b
      arrayType_missing_count [of exampleFormat "NamedType ''f32''" ?w ?C AssertNotReached]
    by simp
qed

subsection \<open>Attributes\<close>

text \<open>
  C8, as the spec states it: a builtin attribute whose name is neither \<open>vertex_index\<close>
  nor \<open>position\<close> is fatal and never silently dropped.  That does not hold in every
  build: with assertions compiled out, the visit of the builtin \<open>frag_depth\<close> returns
  the writer as it was, with nothing appended and no failure.
\<close>

theorem builtin_attribute_dropped_counterexample:
  "visitBuiltinAttributeWith False ''frag_depth'' \<lparr>m_stringBuilder = ''float d '', m_indent = 0\<rparr>
   = Inr \<lparr>m_stringBuilder = ''float d '', m_indent = 0\<rparr>"
  by (simp add: visitBuiltinAttributeWith_def)

text \<open>
  C8, amended.  A stage attribute appends \<open>[[vertex]]\<close>, \<open>[[fragment]]\<close> or
  \<open>[[compute]]\<close>; the builtin \<open>vertex_index\<close> appends \<open>[[vertex_id]]\<close> and the builtin
  \<open>position\<close> appends \<open>[[position]]\<close>, in every build; a location attribute with value
  \<open>N\<close> appends \<open>[[attribute(N)]]\<close> with \<open>N\<close> in decimal.  Any other builtin name reaches
  \<^verbatim>\<open>ASSERT_NOT_REACHED\<close>: that is fatal where assertions are enabled, and where they are
  compiled out the visit appends nothing and returns.
\<close>

theorem attribute_translation:
  "visitAttribute (StageAttribute Vertex) w = Inr (appendString ''[[vertex]]'' w)
   \<and> visitAttribute (StageAttribute Fragment) w = Inr (appendString ''[[fragment]]'' w)
   \<and> visitAttribute (StageAttribute Compute) w = Inr (appendString ''[[compute]]'' w)
   \<and> visitAttribute (BuiltinAttribute ''vertex_index'') w = Inr (appendString ''[[vertex_id]]'' w)
   \<and> visitAttribute (BuiltinAttribute ''position'') w = Inr (appendString ''[[position]]'' w)
   \<and> visitBuiltinAttributeWith assertionsEnabled ''vertex_index'' w
        = Inr (appendString ''[[vertex_id]]'' w)
   \<and> visitBuiltinAttributeWith assertionsEnabled ''position'' w
        = Inr (appendString ''[[position]]'' w)
   \<and> (name \<noteq> ''vertex_index'' \<and> name \<noteq> ''position'' \<longrightarrow>
        visitAttribute (BuiltinAttribute name) w = Inl AssertNotReached
        \<and> visitBuiltinAttributeWith True name w = Inl AssertNotReached
        \<and> visitBuiltinAttributeWith False name w = Inr w)
   \<and> visitAttribute (LocationAttribute N) w =
        Inr (appendString (''[[attribute('' @ showInt N @ '')]]'') w)"
  by (simp add: visitStageAttribute_def visitBuiltinAttribute_def visitBuiltinAttributeWith_def
      visitLocationAttribute_def)

theorem attribute_translation_witness:
  "''frag_depth'' \<noteq> ''vertex_index'' \<and> ''frag_depth'' \<noteq> ''position''
   \<and> visitAttribute (BuiltinAttribute ''frag_depth'') \<lparr>m_stringBuilder = ''float d '', m_indent = 0\<rparr>
       = Inl AssertNotReached
   \<and> visitBuiltinAttributeWith True ''frag_depth'' \<lparr>m_stringBuilder = ''float d '', m_indent = 0\<rparr>
       = Inl AssertNotReached
   \<and> visitBuiltinAttributeWith False ''frag_depth'' \<lparr>m_stringBuilder = ''float d '', m_indent = 0\<rparr>
       = Inr \<lparr>m_stringBuilder = ''float d '', m_indent = 0\<rparr>
   \<and> visitBuiltinAttributeWith False ''vertex_index'' \<lparr>m_stringBuilder = ''float d '', m_indent = 0\<rparr>
       = Inr \<lparr>m_stringBuilder = ''float d [[vertex_id]]'', m_indent = 0\<rparr>
   \<and> visitAttribute (LocationAttribute 3) \<lparr>m_stringBuilder = ''float d '', m_indent = 0\<rparr>
       = Inr \<lparr>m_stringBuilder = ''float d [[attribute(3)]]'', m_indent = 0\<rparr>"
  using attribute_translation [of "\<lparr>m_stringBuilder = ''float d '', m_indent = 0\<rparr>" False
      "''frag_depth''" 3]
  by (simp add: writer_defs showInt_examples)

subsection \<open>Expressions and statements\<close>

text \<open>
  C3.  A callable expression whose target is an array type appends an opening brace and
  a newline, then for each argument, in order, the indentation one level deeper, the
  argument and \<open>,\<close> with a newline, then the indentation of the current level and the
  closing brace.  With any other target it appends the target, \<open>(\<close>, the arguments with
  \<open>, \<close> between them and nothing after the last, and \<open>)\<close>; with no arguments that is
  the target followed by \<open>()\<close>.  Here \<open>ts\<close> are the texts of the arguments and \<open>callee\<close>
  is the text of the target.
\<close>

theorem callableExpression_output:
  "(isArrayType target \<longrightarrow>
      list_all2 (\<lambda>a t. emitted (visitExpression nf a) (Suc (m_indent w)) = Inr t) arguments ts \<longrightarrow>
      visitExpression nf (CallableExpression target arguments) w =
        Inr (appendString
              (''{\<newline>''
               @ concat (map (\<lambda>t. indentation (Suc (m_indent w)) @ t @ '',\<newline>'') ts)
               @ indentation (m_indent w) @ ''}'') w))
   \<and> (\<not> isArrayType target \<longrightarrow>
      emitted (visitTypeDecl nf target) (m_indent w) = Inr callee \<longrightarrow>
      list_all2 (\<lambda>a t. emitted (visitExpression nf a) (m_indent w) = Inr t) arguments ts \<longrightarrow>
      visitExpression nf (CallableExpression target arguments) w =
        Inr (appendString (callee @ ''('' @ commaSeparated ts @ '')'') w))
   \<and> (\<not> isArrayType target \<longrightarrow>
      emitted (visitTypeDecl nf target) (m_indent w) = Inr callee \<longrightarrow>
      visitExpression nf (CallableExpression target []) w =
        Inr (appendString (callee @ ''()'') w))"
proof (intro conjI impI)
  assume "isArrayType target"
    and args: "list_all2 (\<lambda>a t. emitted (visitExpression nf a) (Suc (m_indent w)) = Inr t) arguments ts"
  then show "visitExpression nf (CallableExpression target arguments) w =
        Inr (appendString
              (''{\<newline>''
               @ concat (map (\<lambda>t. indentation (Suc (m_indent w)) @ t @ '',\<newline>'') ts)
               @ indentation (m_indent w) @ ''}'') w)"
    using visitArrayArguments_output [OF args, of "enterScope (appendString ''{\<newline>'' w)"]
    by (simp add: appendIndent_def)
next
  assume "\<not> isArrayType target"
    and callee: "emitted (visitTypeDecl nf target) (m_indent w) = Inr callee"
    and args: "list_all2 (\<lambda>a t. emitted (visitExpression nf a) (m_indent w) = Inr t) arguments ts"
  then show "visitExpression nf (CallableExpression target arguments) w =
        Inr (appendString (callee @ ''('' @ commaSeparated ts @ '')'') w)"
    using visitCallArguments_output [of nf "appendString (callee @ ''('') w" arguments ts]
    by (simp add: visitTypeDecl_emitted)
next
  assume "\<not> isArrayType target"
    and callee: "emitted (visitTypeDecl nf target) (m_indent w) = Inr callee"
  then show "visitExpression nf (CallableExpression target []) w =
        Inr (appendString (callee @ ''()'') w)"
    by (simp add: visitTypeDecl_emitted)
qed

theorem callableExpression_output_witness:
  "visitExpression exampleFormat
     (CallableExpression (ArrayType (Some (NamedType ''f32'')) (Some (AbstractIntLiteral 2)))
        [AbstractIntLiteral 1, IdentifierExpression ''x''])
     \<lparr>m_stringBuilder = ''a = '', m_indent = 1\<rparr>
   = Inr \<lparr>m_stringBuilder = ''a = {\<newline>        1,\<newline>        x,\<newline>    }'', m_indent = 1\<rparr>
   \<and> visitExpression exampleFormat
     (CallableExpression (NamedType ''f32'') [AbstractIntLiteral 1, IdentifierExpression ''x''])
     \<lparr>m_stringBuilder = ''a = '', m_indent = 1\<rparr>
   = Inr \<lparr>m_stringBuilder = ''a = float(1, x)'', m_indent = 1\<rparr>
   \<and> visitExpression exampleFormat (CallableExpression (NamedType ''f'') [])
     \<lparr>m_stringBuilder = ''a = '', m_indent = 1\<rparr>
   = Inr \<lparr>m_stringBuilder = ''a = f()'', m_indent = 1\<rparr>"
proof -
  let ?w = "\<lparr>m_stringBuilder = ''a = '', m_indent = 1\<rparr>"
  let ?args = "[AbstractIntLiteral 1, IdentifierExpression ''x''] :: (unit, unit) Expression list"
  have a: "list_all2 (\<lambda>a t. emitted (visitExpression exampleFormat a) (Suc (m_indent ?w)) = Inr t)
      ?args [''1'', ''x'']"
    by (simp add: emitted_def showInt_examples appendString_def)
  have b: "list_all2 (\<lambda>a t. emitted (visitExpression exampleFormat a) (m_indent ?w) = Inr t)
      ?args [''1'', ''x'']"
    by (simp add: emitted_def showInt_examples appendString_def)
  have c: "emitted (visitTypeDecl exampleFormat (NamedType ''f32'')) (m_indent ?w) = Inr ''float''"
    by (simp add: emitted_def appendString_def)
  have d: "emitted (visitTypeDecl exampleFormat (NamedType ''f'')) (m_indent ?w) = Inr ''f''"
    by (simp add: emitted_def appendString_def)
  show ?thesis
    using callableExpression_output [of "ArrayType (Some (NamedType ''f32'')) (Some (AbstractIntLiteral 2))"
        exampleFormat ?w ?args "[''1'', ''x'']" "[]"] a
      callableExpression_output [of "NamedType ''f32''" exampleFormat ?w ?args "[''1'', ''x'']" "''float''"] b c
      callableExpression_output [of "NamedType ''f''" exampleFormat ?w "[]" "[]" "''f''"] d
    by (simp add: appendString_def appendIndent_def enterScope_def leaveScope_def
        indentation_examples showInt_examples)
qed

text \<open>
  C4.  A statement that is not a compound statement is emitted as the current indentation,
  the text of the statement itself, and \<open>;\<close> with a newline.  A compound statement is
  emitted as the texts of its child statements, each through the same dispatch, with no
  indentation and no terminator of its own.
\<close>

theorem statement_dispatch:
  "(\<not> isCompoundStatement s \<longrightarrow>
      emitted (dispatchStatement nf s) (m_indent w) = Inr body \<longrightarrow>
      visitStatement nf s w =
        Inr (appendString (indentation (m_indent w) @ body @ '';\<newline>'') w))
   \<and> (list_all2 (\<lambda>c t. emitted (visitStatement nf c) (m_indent w) = Inr t) children ts \<longrightarrow>
      visitStatement nf (CompoundStatement children) w = Inr (appendString (concat ts) w))"
proof (intro conjI impI)
  assume "\<not> isCompoundStatement s"
    and "emitted (dispatchStatement nf s) (m_indent w) = Inr body"
  then show "visitStatement nf s w =
        Inr (appendString (indentation (m_indent w) @ body @ '';\<newline>'') w)"
    using dispatchStatement_emitted [of nf s "appendIndent w"]
    by (simp add: appendIndent_def)
next
  assume "list_all2 (\<lambda>c t. emitted (visitStatement nf c) (m_indent w) = Inr t) children ts"
  then show "visitStatement nf (CompoundStatement children) w = Inr (appendString (concat ts) w)"
    using visitCompoundStatement_output [of nf "m_indent w" children ts w] by simp
qed

theorem statement_dispatch_witness:
  "visitStatement exampleFormat (ReturnStatement (Some (IdentifierExpression ''v'')))
     \<lparr>m_stringBuilder = ''{\<newline>'', m_indent = 1\<rparr>
   = Inr \<lparr>m_stringBuilder = ''{\<newline>    return v;\<newline>'', m_indent = 1\<rparr>
   \<and> visitStatement exampleFormat
       (CompoundStatement
          [AssignmentStatement (Some (IdentifierExpression ''x'')) (AbstractIntLiteral 1),
           ReturnStatement None])
     \<lparr>m_stringBuilder = ''{\<newline>'', m_indent = 1\<rparr>
   = Inr \<lparr>m_stringBuilder = ''{\<newline>    x = 1;\<newline>    return;\<newline>'', m_indent = 1\<rparr>"
proof -
  let ?w = "\<lparr>m_stringBuilder = ''{\<newline>'', m_indent = 1\<rparr>"
  let ?ret = "ReturnStatement (Some (IdentifierExpression ''v'')) :: (unit, unit) Statement"
  let ?children = "[AssignmentStatement (Some (IdentifierExpression ''x'')) (AbstractIntLiteral 1),
           ReturnStatement None] :: (unit, unit) Statement list"
  have a: "\<not> isCompoundStatement ?ret"
    by simp
  have b: "emitted (dispatchStatement exampleFormat ?ret) (m_indent ?w) = Inr ''return v''"
    by (simp add: emitted_def visitReturnStatement_def writer_defs)
  have c: "list_all2 (\<lambda>c t. emitted (visitStatement exampleFormat c) (m_indent ?w) = Inr t)
      ?children [''    x = 1;\<newline>'', ''    return;\<newline>'']"
    by (simp add: emitted_def visitAssignmentStatement_def visitReturnStatement_def writer_defs
        indentation_examples showInt_examples)
  show ?thesis
    using statement_dispatch [of ?ret exampleFormat ?w "''return v''" "[]" "[]"] a b
      statement_dispatch [of ?ret exampleFormat ?w "''return v''" ?children
        "[''    x = 1;\<newline>'', ''    return;\<newline>'']"] c
    by (simp add: visitAssignmentStatement_def visitReturnStatement_def writer_defs
        indentation_examples showInt_examples)
qed

subsection \<open>The string builder only grows\<close>

text \<open>
  C10.  Every visit is append-only: whatever the node and the writer, the contents of the
  string builder before the visit are a prefix of its contents afterwards.
\<close>

theorem visit_append_only:
  "visit nf node w = Inr w' \<Longrightarrow> prefix (m_stringBuilder w) (m_stringBuilder w')"
  using streaming_emitted [OF streaming_visit, of nf node w]
  by (auto split: sum.splits)

theorem visit_append_only_witness:
  "visit exampleFormat
     (StructDeclNode \<lparr>struct_name = ''Vertex'',
        struct_members = [\<lparr>member_type = ParameterizedType Vec4 (NamedType ''f32''),
                           member_name = ''position'',
                           member_attributes = [BuiltinAttribute ''position'']\<rparr>]\<rparr>)
     \<lparr>m_stringBuilder = ''// generated\<newline>'', m_indent = 0\<rparr>
   = Inr \<lparr>m_stringBuilder =
            ''// generated\<newline>struct Vertex {\<newline>    vec<float, 4> position [[position]];\<newline>};\<newline>\<newline>'',
          m_indent = 0\<rparr>
   \<and> prefix ''// generated\<newline>''
        ''// generated\<newline>struct Vertex {\<newline>    vec<float, 4> position [[position]];\<newline>};\<newline>\<newline>''"
proof -
  let ?w = "\<lparr>m_stringBuilder = ''// generated\<newline>'', m_indent = 0\<rparr>"
  let ?w' = "\<lparr>m_stringBuilder =
            ''// generated\<newline>struct Vertex {\<newline>    vec<float, 4> position [[position]];\<newline>};\<newline>\<newline>'',
          m_indent = 0\<rparr>"
  let ?node = "StructDeclNode \<lparr>struct_name = ''Vertex'',
        struct_members = [\<lparr>member_type = ParameterizedType Vec4 (NamedType ''f32''),
                           member_name = ''position'',
                           member_attributes = [BuiltinAttribute ''position'']\<rparr>]\<rparr>
        :: (unit, unit) Node"
  have a: "visit exampleFormat ?node ?w = Inr ?w'"
    by (simp add: visitStructDecl_def visitBuiltinAttribute_def visitBuiltinAttributeWith_def
        writer_defs indentation_examples)
  show ?thesis
    using visit_append_only [OF a] a by simp
qed

end
